theory Spec2Isabelle
  imports Complex_Main "HOL-Library.AList" "HOL-Library.Multiset"
begin

section \<open>Data model of \<open>health_check.py\<close>\<close>

text \<open>
  The monitor reads a YAML file, groups its entries by the host of their URL, and then
  loops: probe every endpoint, average the results per domain, report, sleep.

  Three things of the Python are outside the program and are inputs of the model:
  the file system and the YAML and URL libraries (parameters \<open>read_file\<close>,
  \<open>safe_load\<close>, \<open>netloc\<close>), the network (the outcome of every request) and the clock
  (the two readings of \<open>time.monotonic()\<close> of a cycle).

  Python's \<open>float\<close> is modelled by \<^typ>\<open>rat\<close>: \<open>/\<close> is exact division, so the
  theorems about averages are statements of exact arithmetic; the rounding of IEEE
  doubles is not part of the model.
\<close>

subsection \<open>Exceptions\<close>

text \<open>
  The exceptions the program can meet. \<open>TimeoutError\<close> stands for the builtin class and
  its subclasses (the timeouts of aiohttp derive from it), \<open>ClientError\<close> for the
  transport errors of aiohttp. \<open>CancelledError\<close>, \<open>KeyboardInterrupt\<close> and
  \<open>SystemExit\<close> (raised by \<open>sys.exit\<close>) derive from \<open>BaseException\<close> only: a clause
  \<open>except Exception\<close> does not catch them.
\<close>

datatype py_exception =
    TimeoutError
  | KeyError
  | TypeError
  | ValueError
  | ZeroDivisionError
  | OSError
  | YAMLError
  | ClientError
  | CancelledError
  | KeyboardInterrupt
  | SystemExit int

fun is_Exception :: "py_exception \<Rightarrow> bool" where
  "is_Exception CancelledError = False"
| "is_Exception KeyboardInterrupt = False"
| "is_Exception (SystemExit status) = False"
| "is_Exception _ = True"

subsection \<open>Values loaded from YAML\<close>

text \<open>
  What \<open>yaml.safe_load\<close> returns: null, booleans, integers, strings, lists and
  mappings (a \<open>dict\<close>, kept as an association list in insertion order). Floats, binary
  data, timestamps and sets are left out.
\<close>

datatype yaml =
    YNull
  | YBool bool
  | YInt int
  | YStr string
  | YList "yaml list"
  | YMap "(yaml \<times> yaml) list"

text \<open>\<open>for entry in v\<close>: a list yields its items, a dict its keys, a string its characters.\<close>

fun py_iter :: "yaml \<Rightarrow> py_exception + yaml list" where
  "py_iter (YList xs) = Inr xs"
| "py_iter (YMap kvs) = Inr (map fst kvs)"
| "py_iter (YStr s) = Inr (map (\<lambda>c. YStr [c]) s)"
| "py_iter _ = Inl TypeError"

text \<open>\<open>v[key]\<close> for a string key: only a dict can be indexed by a string.\<close>

fun py_getitem :: "yaml \<Rightarrow> string \<Rightarrow> py_exception + yaml" where
  "py_getitem (YMap kvs) key =
     (case map_of kvs (YStr key) of None \<Rightarrow> Inl KeyError | Some v \<Rightarrow> Inr v)"
| "py_getitem _ key = Inl TypeError"

text \<open>\<open>v.get(key, default)\<close>; only called on values that \<open>v[key]\<close> accepted.\<close>

fun py_get :: "yaml \<Rightarrow> string \<Rightarrow> yaml \<Rightarrow> yaml" where
  "py_get (YMap kvs) key dflt =
     (case map_of kvs (YStr key) of None \<Rightarrow> dflt | Some v \<Rightarrow> v)"
| "py_get _ key dflt = dflt"

subsection \<open>Endpoints and domains\<close>

text \<open>
  The dict under \<open>"request_parameters"\<close>; its key \<open>"method"\<close> is the field
  \<open>http_method\<close>.
\<close>

record request_parameters =
  url :: yaml
  http_method :: yaml
  headers :: yaml
  data :: yaml

record endpoint =
  name :: yaml
  request_parameters :: request_parameters

text \<open>
  A domain is the \<open>str\<close> that \<open>urlparse\<close> gives as the host of a URL.
  A \<open>dict\<close> whose order matters is an association list; \<^const>\<open>AList.update\<close> is
  Python's \<open>d[k] = v\<close> (in place when the key exists, at the end otherwise) and
  \<^const>\<open>map_of\<close> the lookup.
\<close>

type_synonym monitored_domains = "(string \<times> endpoint list) list"

type_synonym averages = "(string \<times> rat) list"

subsection \<open>Effects: log records and sleeps\<close>

text \<open>
  One constructor for each call of \<open>logging.error\<close> and \<open>logging.info\<close> in the
  source, with the values the message is formatted from. \<open>Info_report\<close> is the combined
  entry of a cycle: one line for each domain with its rounded percentage.
\<close>

datatype log_record =
    Error_usage
  | Error_load_config py_exception
  | Error_fetching yaml py_exception
  | Info_using_config string
  | Info_monitoring "string list"
  | Info_report "(string \<times> int) list"
  | Info_exiting

text \<open>What the program does to the outside, in order: it logs, and it sleeps.\<close>

datatype effect = Log log_record | Sleep rat

section \<open>Configuration loading\<close>

text \<open>
  Line 63, \<open>domain = urlparse(entry["url"]).netloc\<close>. The URL library is a parameter:
  \<open>netloc v\<close> is the host part of \<open>v\<close>, or the exception \<open>urlparse\<close> raises on it.
\<close>

definition domain_of :: "(yaml \<Rightarrow> py_exception + string) \<Rightarrow> yaml \<Rightarrow> py_exception + string" where
  "domain_of netloc entry =
     (case py_getitem entry ''url'' of Inl e \<Rightarrow> Inl e | Inr u \<Rightarrow> netloc u)"

text \<open>The dict built at lines 65-73; its items are evaluated in the order written.\<close>

definition endpoint_of :: "yaml \<Rightarrow> py_exception + endpoint" where
  "endpoint_of entry =
     (case py_getitem entry ''name'' of
        Inl e \<Rightarrow> Inl e
      | Inr n \<Rightarrow>
          (case py_getitem entry ''url'' of
             Inl e \<Rightarrow> Inl e
           | Inr u \<Rightarrow>
               Inr \<lparr>name = n,
                    request_parameters =
                      \<lparr>url = u,
                       http_method = py_get entry ''method'' (YStr ''GET''),
                       headers = py_get entry ''headers'' YNull,
                       data = py_get entry ''body'' YNull\<rparr>\<rparr>))"

text \<open>
  \<open>monitored_domains[domain].append(endpoint)\<close> on a \<open>defaultdict(list)\<close>: a missing
  key starts from the empty list and is inserted at the end of the dict.
\<close>

definition append_endpoint ::
  "string \<Rightarrow> endpoint \<Rightarrow> monitored_domains \<Rightarrow> monitored_domains" where
  "append_endpoint domain ep monitored_domains =
     AList.update domain
       ((case map_of monitored_domains domain of None \<Rightarrow> [] | Some eps \<Rightarrow> eps) @ [ep])
       monitored_domains"

text \<open>
  The loop of lines 62-74. An exception leaves the loop and the function; the dict
  built so far is lost with it.
\<close>

fun parse_entries ::
  "(yaml \<Rightarrow> py_exception + string) \<Rightarrow> monitored_domains \<Rightarrow> yaml list
     \<Rightarrow> py_exception + monitored_domains" where
  "parse_entries netloc monitored_domains [] = Inr monitored_domains"
| "parse_entries netloc monitored_domains (entry # rest) =
     (case domain_of netloc entry of
        Inl e \<Rightarrow> Inl e
      | Inr domain \<Rightarrow>
          (case endpoint_of entry of
             Inl e \<Rightarrow> Inl e
           | Inr ep \<Rightarrow> parse_entries netloc (append_endpoint domain ep monitored_domains) rest))"

text \<open>\<open>parse_config\<close> (lines 58-76); \<open>safe_load\<close> is \<open>yaml.safe_load\<close>.\<close>

definition parse_config ::
  "(string \<Rightarrow> py_exception + yaml) \<Rightarrow> (yaml \<Rightarrow> py_exception + string) \<Rightarrow> string
     \<Rightarrow> py_exception + monitored_domains" where
  "parse_config safe_load netloc config =
     (case safe_load config of
        Inl e \<Rightarrow> Inl e
      | Inr file_content \<Rightarrow>
          (case py_iter file_content of
             Inl e \<Rightarrow> Inl e
           | Inr entries \<Rightarrow> parse_entries netloc [] entries))"

text \<open>
  \<open>load_config\<close> (lines 23-28); \<open>read_file path\<close> is \<open>open(path, "r")\<close> followed by
  \<open>file.read()\<close>. Every \<open>Exception\<close> is logged and turned into \<open>sys.exit(1)\<close>.
\<close>

definition load_config ::
  "(string \<Rightarrow> py_exception + string) \<Rightarrow> (string \<Rightarrow> py_exception + yaml)
     \<Rightarrow> (yaml \<Rightarrow> py_exception + string) \<Rightarrow> string
     \<Rightarrow> (py_exception + monitored_domains) \<times> effect list" where
  "load_config read_file safe_load netloc config_file_path =
     (case (case read_file config_file_path of
              Inl e \<Rightarrow> Inl e
            | Inr content \<Rightarrow> parse_config safe_load netloc content) of
        Inr monitored_domains \<Rightarrow> (Inr monitored_domains, [])
      | Inl e \<Rightarrow>
          (if is_Exception e then (Inl (SystemExit 1), [Log (Error_load_config e)])
           else (Inl e, [])))"

section \<open>Endpoint prober\<close>

text \<open>
  What \<open>session.request(**endpoint, timeout=DOWN_REQUEST_TIMEOUT)\<close> does for one call:
  a response with its status code, or an exception.
\<close>

datatype probe_outcome = Response int | Raised py_exception

text \<open>
  \<open>check_endpoint_status\<close> (lines 89-99). The first argument is the outcome the session
  delivers for this request. The result is the value returned or the exception that
  leaves the function, with the effects of the call.
\<close>

fun check_endpoint_status ::
  "probe_outcome \<Rightarrow> request_parameters \<Rightarrow> (py_exception + bool) \<times> effect list" where
  "check_endpoint_status (Response status) endpoint =
     (Inr (200 \<le> status \<and> status < 300), [])"
| "check_endpoint_status (Raised e) endpoint =
     (if e = TimeoutError then (Inr False, [])
      else if is_Exception e then (Inr False, [Log (Error_fetching (url endpoint) e)])
      else (Inl e, []))"

section \<open>Domain aggregator\<close>

text \<open>
  \<open>asyncio.gather(*tasks)\<close>: the results of all tasks in task order, or an exception
  of a task. When several tasks raise, Python propagates the one raised first in time;
  the model takes the first in task order. The effects of the tasks are concatenated
  in task order.
\<close>

fun gather ::
  "((py_exception + 'a) \<times> 'l list) list \<Rightarrow> (py_exception + 'a list) \<times> 'l list" where
  "gather [] = (Inr [], [])"
| "gather ((r, lg) # tasks) =
     (case gather tasks of (rs, lgs) \<Rightarrow>
        ((case r of
            Inl e \<Rightarrow> Inl e
          | Inr v \<Rightarrow> (case rs of Inl e \<Rightarrow> Inl e | Inr vs \<Rightarrow> Inr (v # vs))),
         lg @ lgs))"

text \<open>Python's \<open>a / b\<close> with an integer divisor: a float, or \<open>ZeroDivisionError\<close>.\<close>

definition truediv :: "rat \<Rightarrow> int \<Rightarrow> py_exception + rat" where
  "truediv a b = (if b = 0 then Inl ZeroDivisionError else Inr (a / of_int b))"

text \<open>\<open>sum\<close> of a list of booleans: \<open>True\<close> counts 1, \<open>False\<close> counts 0.\<close>

definition sum_bools :: "bool list \<Rightarrow> int" where
  "sum_bools bs = sum_list (map (\<lambda>b. if b then 1 else 0) bs)"

text \<open>
  \<open>get_domain_availability\<close> (lines 114-119). \<open>session j\<close> is the outcome of the request
  of the \<open>j\<close>-th task.
\<close>

definition get_domain_availability ::
  "(nat \<Rightarrow> probe_outcome) \<Rightarrow> endpoint list \<Rightarrow> (py_exception + rat) \<times> effect list" where
  "get_domain_availability session endpoints =
     (let tasks = map (\<lambda>(j, endpoint).
                    check_endpoint_status (session j) (request_parameters endpoint))
                  (enumerate 0 endpoints)
      in case gather tasks of
           (Inl e, lg) \<Rightarrow> (Inl e, lg)
         | (Inr endpoints_status, lg) \<Rightarrow>
             (truediv (of_int (sum_bools endpoints_status)) (int (length endpoints_status)),
              lg))"

section \<open>Availability tracker\<close>

text \<open>
  The loop of lines 141-145 over \<open>zip(monitored_domains.keys(), results)\<close>. Reading a
  key that \<open>domain_availability_averages\<close> does not have raises \<open>KeyError\<close> before
  anything is stored; the division raises when \<open>monitoring_cycle\<close> is zero.
\<close>

fun update_averages ::
  "(string \<times> rat) list \<Rightarrow> int \<Rightarrow> averages \<Rightarrow> py_exception + averages" where
  "update_averages [] monitoring_cycle domain_availability_averages =
     Inr domain_availability_averages"
| "update_averages ((domain, availability_pct) # rest) monitoring_cycle
       domain_availability_averages =
     (case map_of domain_availability_averages domain of
        None \<Rightarrow> Inl KeyError
      | Some previous \<Rightarrow>
          (case truediv (previous * of_int (monitoring_cycle - 1) + availability_pct)
                  monitoring_cycle of
             Inl e \<Rightarrow> Inl e
           | Inr average \<Rightarrow>
               update_averages rest monitoring_cycle
                 (AList.update domain average domain_availability_averages)))"

text \<open>
  \<open>update_domains_availability\<close> (lines 136-145). \<open>session i j\<close> is the outcome of the
  request for the \<open>j\<close>-th endpoint of the \<open>i\<close>-th domain in this cycle.
\<close>

definition update_domains_availability ::
  "(nat \<Rightarrow> nat \<Rightarrow> probe_outcome) \<Rightarrow> averages \<Rightarrow> int \<Rightarrow> monitored_domains
     \<Rightarrow> (py_exception + averages) \<times> effect list" where
  "update_domains_availability session domain_availability_averages monitoring_cycle
       monitored_domains =
     (let tasks = map (\<lambda>(i, endpoints). get_domain_availability (session i) endpoints)
                    (enumerate 0 (map snd monitored_domains))
      in case gather tasks of
           (Inl e, fx) \<Rightarrow> (Inl e, fx)
         | (Inr results, fx) \<Rightarrow>
             (update_averages (zip (map fst monitored_domains) results) monitoring_cycle
                domain_availability_averages,
              fx))"

section \<open>Monitoring scheduler\<close>

definition REFRESH_PERIOD :: rat where
  "REFRESH_PERIOD = 15"

text \<open>Python's \<open>round\<close> of a number to an integer: to the nearest, ties to the even one.\<close>

definition py_round :: "rat \<Rightarrow> int" where
  "py_round x =
     (let f = \<lfloor>x\<rfloor>; r = x - of_int f
      in if r < 1 / 2 then f else if 1 / 2 < r then f + 1 else if even f then f else f + 1)"

text \<open>The local variables of \<open>main\<close> that live across iterations.\<close>

record loop_state =
  domain_availability_averages :: averages
  monitoring_cycle :: int

text \<open>
  What the outside does during one iteration: the readings of \<open>time.monotonic()\<close> at
  lines 166 and 184, and the outcome of every request.
\<close>

record cycle_input =
  monotonic_start :: rat
  monotonic_end :: rat
  outcomes :: "nat \<Rightarrow> nat \<Rightarrow> probe_outcome"

text \<open>
  The \<open>while True\<close> loop of lines 165-185, run for as many iterations as the list of
  inputs is long. \<open>Inr\<close> is the state of the loop after them (the loop goes on), \<open>Inl\<close>
  the exception that ended it.
\<close>

fun monitoring_loop ::
  "monitored_domains \<Rightarrow> loop_state \<Rightarrow> cycle_input list
     \<Rightarrow> (py_exception + loop_state) \<times> effect list" where
  "monitoring_loop monitored_domains st [] = (Inr st, [])"
| "monitoring_loop monitored_domains st (c # cs) =
     (let start_time = monotonic_start c;
          cycle = monitoring_cycle st + 1
      in case update_domains_availability (outcomes c) (domain_availability_averages st)
                cycle monitored_domains of
           (Inl e, fx) \<Rightarrow> (Inl e, fx)
         | (Inr avgs, fx) \<Rightarrow>
             (let report = Info_report
                             (map (\<lambda>(domain, availability).
                                     (domain, py_round (availability * 100))) avgs);
                  elapsed_time = monotonic_end c - start_time;
                  pause = max 0 (REFRESH_PERIOD - elapsed_time)
              in case monitoring_loop monitored_domains
                        \<lparr>domain_availability_averages = avgs, monitoring_cycle = cycle\<rparr> cs of
                   (r, fx') \<Rightarrow> (r, fx @ [Log report, Sleep pause] @ fx')))"

text \<open>
  \<open>main\<close> (lines 150-185), observed for the iterations in \<open>cycles\<close>. \<open>argv\<close> is
  \<open>sys.argv\<close>.
\<close>

definition main ::
  "string list \<Rightarrow> (string \<Rightarrow> py_exception + string) \<Rightarrow> (string \<Rightarrow> py_exception + yaml)
     \<Rightarrow> (yaml \<Rightarrow> py_exception + string) \<Rightarrow> cycle_input list
     \<Rightarrow> (py_exception + loop_state) \<times> effect list" where
  "main argv read_file safe_load netloc cycles =
     (if length argv \<noteq> 2 then (Inl (SystemExit 1), [Log Error_usage])
      else
        (let config_file_path = argv ! 1
         in case load_config read_file safe_load netloc config_file_path of
              (Inl e, fx) \<Rightarrow> (Inl e, Log (Info_using_config config_file_path) # fx)
            | (Inr monitored_domains, fx) \<Rightarrow>
                (case monitoring_loop monitored_domains
                        \<lparr>domain_availability_averages =
                           map (\<lambda>domain. (domain, 0)) (map fst monitored_domains),
                         monitoring_cycle = 0\<rparr>
                        cycles of
                   (r, fx') \<Rightarrow>
                     (r, Log (Info_using_config config_file_path) # fx
                           @ Log (Info_monitoring (map fst monitored_domains)) # fx'))))"

text \<open>
  The script (lines 188-193): \<open>asyncio.run(main())\<close> turns the cancellation of \<open>main\<close>
  into \<open>KeyboardInterrupt\<close>, which is logged and exits with status 0; \<open>sys.exit(n)\<close>
  exits with status \<open>n\<close>; any other exception is uncaught, and the interpreter exits
  with status 1.
\<close>

datatype process = Exited int | Running loop_state

definition script ::
  "string list \<Rightarrow> (string \<Rightarrow> py_exception + string) \<Rightarrow> (string \<Rightarrow> py_exception + yaml)
     \<Rightarrow> (yaml \<Rightarrow> py_exception + string) \<Rightarrow> cycle_input list
     \<Rightarrow> process \<times> effect list" where
  "script argv read_file safe_load netloc cycles =
     (case main argv read_file safe_load netloc cycles of
        (Inr st, fx) \<Rightarrow> (Running st, fx)
      | (Inl e, fx) \<Rightarrow>
          (if e = KeyboardInterrupt \<or> e = CancelledError
           then (Exited 0, fx @ [Log Info_exiting])
           else (case e of SystemExit status \<Rightarrow> (Exited status, fx) | _ \<Rightarrow> (Exited 1, fx))))"

section \<open>Observations on a trace of effects\<close>

text \<open>The durations passed to \<open>asyncio.sleep\<close>, in order.\<close>

fun sleeps :: "effect list \<Rightarrow> rat list" where
  "sleeps [] = []"
| "sleeps (Sleep d # fx) = d # sleeps fx"
| "sleeps (Log r # fx) = sleeps fx"

section \<open>Words of the specification\<close>


section \<open>A worked example\<close>

text \<open>
  Stand-ins for \<open>urlparse(u).netloc\<close> and \<open>urlparse(u).hostname\<close>, for the examples
  only (the theorems hold for every \<open>netloc\<close>). On a URL of the form
  \<open>scheme://authority/path\<close> the network location is the authority: what stands
  between \<open>//\<close> and the next \<open>/\<close>, \<open>?\<close> or \<open>#\<close>. The host name is the network location
  without the user information before \<open>@\<close> and without the port after \<open>:\<close> (written
  in lower case, and not a bracketed IPv6 address, in the examples).
\<close>

definition example_netloc :: "yaml \<Rightarrow> py_exception + string" where
  "example_netloc v =
     (case v of
        YStr s \<Rightarrow>
          Inr (takeWhile (\<lambda>c. c \<noteq> CHR ''/'' \<and> c \<noteq> CHR ''?'' \<and> c \<noteq> CHR ''#'')
                 (drop 2 (dropWhile (\<lambda>c. c \<noteq> CHR ''/'') s)))
      | _ \<Rightarrow> Inl TypeError)"


text \<open>What the file system and the YAML library do in the examples.\<close>

definition example_read_file :: "string \<Rightarrow> py_exception + string" where
  "example_read_file path = Inr ''text''"

definition example_safe_load :: "yaml list \<Rightarrow> string \<Rightarrow> py_exception + yaml" where
  "example_safe_load entries text = Inr (YList entries)"

text \<open>Three entries, the first and the third on the same host.\<close>

definition example_entries :: "yaml list" where
  "example_entries =
     [YMap [(YStr ''name'', YStr ''index''), (YStr ''url'', YStr ''https://example.com/'')],
      YMap [(YStr ''name'', YStr ''other''), (YStr ''url'', YStr ''https://other.org/'')],
      YMap [(YStr ''name'', YStr ''careers''),
            (YStr ''url'', YStr ''https://example.com/careers''),
            (YStr ''method'', YStr ''POST'')]]"



text \<open>The three entries with a fourth that has no \<open>url\<close>.\<close>

definition example_bad_entries :: "yaml list" where
  "example_bad_entries = example_entries @ [YMap [(YStr ''name'', YStr ''nameless'')]]"

text \<open>
  The scenario of the specification: one domain with two endpoints; in the first cycle
  one is Up and one Down, in the second both are Up. The first cycle takes 1 second,
  the second 17.
\<close>

definition example_domains :: monitored_domains where
  "example_domains =
     [(''example.com'',
       [\<lparr>name = YStr ''index'',
         request_parameters =
           \<lparr>url = YStr ''https://example.com/'', http_method = YStr ''GET'',
            headers = YNull, data = YNull\<rparr>\<rparr>,
        \<lparr>name = YStr ''careers'',
         request_parameters =
           \<lparr>url = YStr ''https://example.com/careers'', http_method = YStr ''GET'',
            headers = YNull, data = YNull\<rparr>\<rparr>])]"

definition example_cycles :: "cycle_input list" where
  "example_cycles =
     [\<lparr>monotonic_start = 0, monotonic_end = 1,
       outcomes = (\<lambda>i j. if j = 0 then Response 200 else Response 503)\<rparr>,
      \<lparr>monotonic_start = 15, monotonic_end = 32,
       outcomes = (\<lambda>i j. Response 200)\<rparr>]"

section \<open>Facts about \<open>gather\<close> and the prober\<close>

lemma gather_Inr_iff:
  "fst (gather tasks) = Inr vs \<longleftrightarrow> map fst tasks = map Inr vs"
proof (induction tasks arbitrary: vs)
  case Nil
  show ?case by auto
next
  case (Cons t tasks)
  obtain r lg where t: "t = (r, lg)" by (cases t)
  obtain rs lgs where g: "gather tasks = (rs, lgs)" by (cases "gather tasks")
  show ?case
  proof (cases r)
    case (Inl e)
    with t g show ?thesis by (cases vs) auto
  next
    case (Inr v)
    note r = this
    show ?thesis
    proof (cases rs)
      case (Inl e)
      with Cons.IH g have "\<And>ws. map fst tasks \<noteq> map Inr ws"
        by (metis fst_conv sum.distinct(1))
      with t g r Inl show ?thesis by (cases vs) auto
    next
      case (Inr ws)
      with Cons.IH[of ws] g have "map fst tasks = map Inr ws" by simp
      with t g r Inr Cons.IH show ?thesis by (cases vs) auto
    qed
  qed
qed

lemma gather_effects: "snd (gather tasks) = concat (map snd tasks)"
  by (induction tasks) (auto split: prod.splits)

lemma gather_Inl_mem:
  "fst (gather tasks) = Inl e \<Longrightarrow> Inl e \<in> set (map fst tasks)"
  by (induction tasks) (auto split: prod.splits sum.splits)

text \<open>
  The only exceptions that leave the prober are those a clause \<open>except Exception\<close>
  does not catch: the cancellation of the task, an interrupt, an exit.
\<close>

lemma check_endpoint_status_Inl:
  "fst (check_endpoint_status outcome endpoint) = Inl e \<Longrightarrow> \<not> is_Exception e"
  by (cases outcome) (auto split: if_splits)

lemma sum_bools_count: "sum_bools bs = int (length (filter id bs))"
  by (induction bs) (auto simp: sum_bools_def)

lemma get_domain_availability_statuses:
  assumes "length ups = length endpoints"
    and "\<And>j. j < length endpoints \<Longrightarrow>
           fst (check_endpoint_status (session j) (request_parameters (endpoints ! j)))
           = Inr (ups ! j)"
  shows "fst (get_domain_availability session endpoints)
         = truediv (of_int (sum_bools ups)) (int (length ups))"
proof -
  let ?tasks = "map (\<lambda>(j, endpoint).
                       check_endpoint_status (session j) (request_parameters endpoint))
                  (enumerate 0 endpoints)"
  have "map fst ?tasks = map Inr ups"
    using assms by (auto simp: list_eq_iff_nth_eq nth_enumerate_eq)
  then have "fst (gather ?tasks) = Inr ups"
    by (simp only: gather_Inr_iff)
  then show ?thesis
    by (cases "gather ?tasks") (simp add: get_domain_availability_def)
qed

lemma get_domain_availability_Inl:
  assumes "fst (get_domain_availability session endpoints) = Inl e"
  shows "(e = ZeroDivisionError \<and> endpoints = []) \<or> (\<not> is_Exception e \<and> endpoints \<noteq> [])"
proof -
  let ?tasks = "map (\<lambda>(j, endpoint).
                       check_endpoint_status (session j) (request_parameters endpoint))
                  (enumerate 0 endpoints)"
  obtain r fx where g: "gather ?tasks = (r, fx)" by (cases "gather ?tasks")
  show ?thesis
  proof (cases r)
    case (Inl e')
    with g assms have e: "e' = e" by (simp add: get_domain_availability_def)
    from g Inl e have "Inl e \<in> set (map fst ?tasks)"
      using gather_Inl_mem[of ?tasks e] by simp
    then obtain j ep where "(j, ep) \<in> set (enumerate 0 endpoints)"
      and "fst (check_endpoint_status (session j) (request_parameters ep)) = Inl e"
      by force
    then have "\<not> is_Exception e" "endpoints \<noteq> []"
      by (auto dest: check_endpoint_status_Inl)
    then show ?thesis by simp
  next
    case (Inr ups)
    with g have "map fst ?tasks = map Inr ups"
      using gather_Inr_iff[of ?tasks ups] by simp
    then have "length ups = length endpoints"
      by (metis length_map length_enumerate)
    with g Inr assms show ?thesis
      by (auto simp: get_domain_availability_def truediv_def split: if_splits)
  qed
qed

section \<open>Facts about the tracker and the loop\<close>

lemma update_averages_keys:
  "update_averages kvs c avgs = Inr avgs' \<Longrightarrow> map fst avgs' = map fst avgs"
proof (induction kvs arbitrary: avgs)
  case Nil
  then show ?case by simp
next
  case (Cons kv kvs)
  obtain k f where kv: "kv = (k, f)" by (cases kv)
  from Cons.prems kv obtain prev v where
    prev: "map_of avgs k = Some prev" and
    rest: "update_averages kvs c (AList.update k v avgs) = Inr avgs'"
    by (auto split: option.splits sum.splits)
  from prev have "k \<in> fst ` set avgs" by (metis map_of_eq_None_iff option.distinct(1))
  then have "map fst (AList.update k v avgs) = map fst avgs"
    by (simp add: update_keys)
  with Cons.IH[OF rest] show ?case by simp
qed

lemma update_averages_other:
  "update_averages kvs c avgs = Inr avgs' \<Longrightarrow> k \<notin> fst ` set kvs
   \<Longrightarrow> map_of avgs' k = map_of avgs k"
proof (induction kvs arbitrary: avgs)
  case Nil
  then show ?case by simp
next
  case (Cons kv kvs)
  obtain k0 f0 where kv: "kv = (k0, f0)" by (cases kv)
  from Cons.prems(1) kv obtain v where
    rest: "update_averages kvs c (AList.update k0 v avgs) = Inr avgs'"
    by (auto split: option.splits sum.splits)
  from Cons.prems(2) kv have "k \<notin> fst ` set kvs" "k \<noteq> k0" by auto
  with Cons.IH[OF rest] show ?case by (simp add: update_conv')
qed


lemma check_endpoint_status_no_sleep:
  "sleeps (snd (check_endpoint_status outcome endpoint)) = []"
  by (cases outcome) auto

lemma sleeps_append: "sleeps (fx @ fx') = sleeps fx @ sleeps fx'"
  by (induction fx rule: sleeps.induct) auto

lemma sleeps_concat_Nil:
  "(\<And>t. t \<in> set tasks \<Longrightarrow> sleeps (snd t) = []) \<Longrightarrow> sleeps (concat (map snd tasks)) = []"
  by (induction tasks) (auto simp: sleeps_append)

lemma get_domain_availability_no_sleep:
  "sleeps (snd (get_domain_availability session endpoints)) = []"
proof -
  let ?tasks = "map (\<lambda>(j, endpoint).
                       check_endpoint_status (session j) (request_parameters endpoint))
                  (enumerate 0 endpoints)"
  have "sleeps (snd (gather ?tasks)) = []"
    unfolding gather_effects
    by (rule sleeps_concat_Nil) (auto simp: check_endpoint_status_no_sleep)
  then show ?thesis
    by (cases "gather ?tasks") (auto simp: get_domain_availability_def split: sum.splits)
qed

lemma update_domains_availability_no_sleep:
  "sleeps (snd (update_domains_availability session avgs c md)) = []"
proof -
  let ?tasks = "map (\<lambda>(i, endpoints). get_domain_availability (session i) endpoints)
                    (enumerate 0 (map snd md))"
  have "sleeps (snd (gather ?tasks)) = []"
    unfolding gather_effects
    by (rule sleeps_concat_Nil) (auto simp: get_domain_availability_no_sleep)
  then show ?thesis
    by (cases "gather ?tasks") (auto simp: update_domains_availability_def split: sum.splits)
qed


lemma update_domains_availability_keys:
  assumes "fst (update_domains_availability session avgs c md) = Inr avgs'"
  shows "map fst avgs' = map fst avgs"
    and "k \<notin> fst ` set md \<Longrightarrow> map_of avgs' k = map_of avgs k"
proof -
  let ?tasks = "map (\<lambda>(i, endpoints). get_domain_availability (session i) endpoints)
                    (enumerate 0 (map snd md))"
  obtain r fx where g: "gather ?tasks = (r, fx)" by (cases "gather ?tasks")
  with assms obtain results where r: "r = Inr results"
    and upd: "update_averages (zip (map fst md) results) c avgs = Inr avgs'"
    by (cases r) (auto simp: update_domains_availability_def)
  from upd show "map fst avgs' = map fst avgs" by (rule update_averages_keys)
  assume "k \<notin> fst ` set md"
  then have "k \<notin> fst ` set (zip (map fst md) results)"
    by (auto dest!: set_zip_leftD)
  with upd show "map_of avgs' k = map_of avgs k" by (rule update_averages_other)
qed


lemma update_averages_reads:
  "update_averages kvs c avgs = Inr avgs' \<Longrightarrow> fst ` set kvs \<subseteq> fst ` set avgs"
proof (induction kvs arbitrary: avgs)
  case Nil
  then show ?case by simp
next
  case (Cons kv kvs)
  obtain k f where kv: "kv = (k, f)" by (cases kv)
  from Cons.prems kv obtain prev v where
    prev: "map_of avgs k = Some prev" and
    rest: "update_averages kvs c (AList.update k v avgs) = Inr avgs'"
    by (auto split: option.splits sum.splits)
  from prev have k: "k \<in> fst ` set avgs" by (metis map_of_eq_None_iff option.distinct(1))
  from Cons.IH[OF rest] have "fst ` set kvs \<subseteq> insert k (fst ` set avgs)"
    by (simp add: dom_update)
  with k kv show ?case by auto
qed

lemma update_domains_availability_reads:
  assumes "fst (update_domains_availability session avgs c md) = Inr avgs'"
  shows "fst ` set md \<subseteq> fst ` set avgs"
proof -
  let ?tasks = "map (\<lambda>(i, endpoints). get_domain_availability (session i) endpoints)
                    (enumerate 0 (map snd md))"
  obtain r fx where g: "gather ?tasks = (r, fx)" by (cases "gather ?tasks")
  with assms obtain results where r: "r = Inr results"
    and upd: "update_averages (zip (map fst md) results) c avgs = Inr avgs'"
    by (cases r) (auto simp: update_domains_availability_def)
  from g r have "map fst ?tasks = map Inr results"
    using gather_Inr_iff[of ?tasks results] by simp
  then have len: "length results = length md"
    by (metis length_map length_enumerate)
  then have "fst ` set (zip (map fst md) results) = fst ` set md"
    by (metis length_map map_fst_zip set_map)
  with update_averages_reads[OF upd] show ?thesis by simp
qed

lemma monitoring_loop_step:
  assumes "fst (monitoring_loop md st (c # cs)) = Inr st'"
  obtains avgs where
    "fst (update_domains_availability (outcomes c) (domain_availability_averages st)
            (monitoring_cycle st + 1) md) = Inr avgs"
    and "fst (monitoring_loop md
            \<lparr>domain_availability_averages = avgs,
             monitoring_cycle = monitoring_cycle st + 1\<rparr> cs) = Inr st'"
  using assms
  by (auto simp: Let_def split: prod.splits sum.splits)



lemma get_domain_availability_succeeds:
  assumes "endpoints \<noteq> []"
    and "\<forall>j < length endpoints. \<forall>e. session j = Raised e \<longrightarrow> is_Exception e"
  shows "\<exists>f. fst (get_domain_availability session endpoints) = Inr f"
proof -
  define ups where "ups = map (\<lambda>j. case session j of
       Response status \<Rightarrow> 200 \<le> status \<and> status < 300 | Raised e \<Rightarrow> False) [0..<length endpoints]"
  have "fst (check_endpoint_status (session j) (request_parameters (endpoints ! j))) = Inr (ups ! j)"
    if "j < length endpoints" for j
    using that assms(2) by (cases "session j") (auto simp: ups_def)
  moreover have "length ups = length endpoints" by (simp add: ups_def)
  ultimately have "fst (get_domain_availability session endpoints)
         = truediv (of_int (sum_bools ups)) (int (length ups))"
    using get_domain_availability_statuses[of ups endpoints session] by blast
  with assms(1) \<open>length ups = length endpoints\<close> show ?thesis
    by (simp add: truediv_def)
qed

lemma update_averages_succeeds:
  "c \<noteq> 0 \<Longrightarrow> fst ` set kvs \<subseteq> fst ` set avgs
   \<Longrightarrow> \<exists>avgs'. update_averages kvs c avgs = Inr avgs'"
proof (induction kvs arbitrary: avgs)
  case Nil
  then show ?case by simp
next
  case (Cons kv kvs)
  obtain k f where kv: "kv = (k, f)" by (cases kv)
  with Cons.prems(2) have "k \<in> fst ` set avgs" by auto
  then obtain prev where prev: "map_of avgs k = Some prev"
    by (metis map_of_eq_None_iff not_Some_eq)
  let ?v = "(prev * of_int (c - 1) + f) / of_int c"
  have "fst ` set kvs \<subseteq> fst ` set (AList.update k ?v avgs)"
    using Cons.prems(2) kv by (auto simp: dom_update)
  from Cons.IH[OF Cons.prems(1) this] kv prev Cons.prems(1) show ?case
    by (simp add: truediv_def)
qed

lemma map_fst_all_Inr:
  assumes "\<And>t. t \<in> set ts \<Longrightarrow> \<exists>f. fst t = Inr f"
  shows "map fst ts = map Inr (map (\<lambda>t. projr (fst t)) ts)"
proof -
  have "fst t = Inr (projr (fst t))" if "t \<in> set ts" for t
    using assms[OF that] by auto
  then show ?thesis by simp
qed

lemma update_domains_availability_succeeds:
  assumes "c \<noteq> 0"
    and "\<forall>(d, eps) \<in> set md. eps \<noteq> []"
    and "\<forall>i j e. session i j = Raised e \<longrightarrow> is_Exception e"
    and "fst ` set md \<subseteq> fst ` set avgs"
  shows "\<exists>avgs'. fst (update_domains_availability session avgs c md) = Inr avgs'"
proof -
  let ?tasks = "map (\<lambda>(i, endpoints). get_domain_availability (session i) endpoints)
                    (enumerate 0 (map snd md)) :: ((py_exception + rat) \<times> effect list) list"
  have "\<exists>f. fst t = Inr f" if "t \<in> set ?tasks" for t
  proof -
    from that obtain i eps where "(i, eps) \<in> set (enumerate 0 (map snd md))"
      and t: "t = get_domain_availability (session i) eps" by auto
    then have "eps \<in> snd ` set md" by (auto simp: in_set_enumerate_eq)
    with assms(2) have "eps \<noteq> []" by auto
    with assms(3) t show ?thesis
      using get_domain_availability_succeeds[of eps "session i"] by auto
  qed
  then have "map fst ?tasks = map Inr (map (\<lambda>t. projr (fst t)) ?tasks)"
    by (rule map_fst_all_Inr)
  then have "fst (gather ?tasks) = Inr (map (\<lambda>t. projr (fst t)) ?tasks)"
    by (simp only: gather_Inr_iff)
  moreover have "fst ` set (zip (map fst md) (map (\<lambda>t. projr (fst t)) ?tasks)) \<subseteq> fst ` set avgs"
    using assms(4) by (auto dest!: set_zip_leftD)
  ultimately show ?thesis
    using update_averages_succeeds[OF assms(1), of "zip (map fst md) (map (\<lambda>t. projr (fst t)) ?tasks)" avgs]
    by (cases "gather ?tasks") (auto simp: update_domains_availability_def)
qed

lemma monitoring_loop_succeeds:
  assumes "\<forall>(d, eps) \<in> set md. eps \<noteq> []"
    and "\<forall>c \<in> set cs. \<forall>i j e. outcomes c i j = Raised e \<longrightarrow> is_Exception e"
    and "fst ` set md \<subseteq> fst ` set (domain_availability_averages st)"
    and "0 \<le> monitoring_cycle st"
  shows "\<exists>st'. fst (monitoring_loop md st cs) = Inr st'"
  using assms(2-)
proof (induction cs arbitrary: st)
  case Nil
  then show ?case by simp
next
  case (Cons c cs)
  have "monitoring_cycle st + 1 \<noteq> 0" using Cons.prems(3) by simp
  moreover have "\<forall>i j e. outcomes c i j = Raised e \<longrightarrow> is_Exception e"
    using Cons.prems(1) by simp
  ultimately obtain avgs where
    upd: "fst (update_domains_availability (outcomes c) (domain_availability_averages st)
            (monitoring_cycle st + 1) md) = Inr avgs"
    using update_domains_availability_succeeds[OF _ assms(1) _ Cons.prems(2)] by blast
  let ?st1 = "\<lparr>domain_availability_averages = avgs, monitoring_cycle = monitoring_cycle st + 1\<rparr>"
  from update_domains_availability_keys(1)[OF upd] Cons.prems(2)
  have "fst ` set md \<subseteq> fst ` set (domain_availability_averages ?st1)"
    by (metis loop_state.select_convs(1) set_map)
  then obtain st' where "fst (monitoring_loop md ?st1 cs) = Inr st'"
    using Cons.IH[of ?st1] Cons.prems(1,3) by auto
  with upd show ?case
    by (auto simp: Let_def split: prod.splits sum.splits)
qed

section \<open>Facts about the effects of the loop\<close>

lemma check_endpoint_status_effects:
  "x \<in> set (snd (check_endpoint_status outcome endpoint)) \<Longrightarrow> \<exists>u e. x = Log (Error_fetching u e)"
  by (cases outcome) (auto split: if_splits)

lemma get_domain_availability_effects:
  assumes "x \<in> set (snd (get_domain_availability session endpoints))"
  shows "\<exists>u e. x = Log (Error_fetching u e)"
proof -
  let ?tasks = "map (\<lambda>(j, endpoint).
                       check_endpoint_status (session j) (request_parameters endpoint))
                  (enumerate 0 endpoints)"
  have "snd (get_domain_availability session endpoints) = snd (gather ?tasks)"
    by (cases "gather ?tasks") (auto simp: get_domain_availability_def split: sum.splits)
  with assms have "x \<in> set (concat (map snd ?tasks))"
    by (simp only: gather_effects)
  then show ?thesis
    by (auto dest: check_endpoint_status_effects)
qed

lemma update_domains_availability_effects:
  assumes "x \<in> set (snd (update_domains_availability session avgs c md))"
  shows "\<exists>u e. x = Log (Error_fetching u e)"
proof -
  let ?tasks = "map (\<lambda>(i, endpoints). get_domain_availability (session i) endpoints)
                    (enumerate 0 (map snd md))"
  have "snd (update_domains_availability session avgs c md) = snd (gather ?tasks)"
    by (cases "gather ?tasks") (auto simp: update_domains_availability_def split: sum.splits)
  with assms have "x \<in> set (concat (map snd ?tasks))"
    by (simp only: gather_effects)
  then show ?thesis
    by (auto dest: get_domain_availability_effects)
qed

lemma monitoring_loop_reports:
  "Log (Info_report r) \<in> set (snd (monitoring_loop md st cs))
   \<Longrightarrow> map fst r = map fst (domain_availability_averages st)"
proof (induction cs arbitrary: st)
  case Nil
  then show ?case by simp
next
  case (Cons c cs)
  obtain res fx where u: "update_domains_availability (outcomes c)
      (domain_availability_averages st) (monitoring_cycle st + 1) md = (res, fx)"
    by (cases "update_domains_availability (outcomes c)
      (domain_availability_averages st) (monitoring_cycle st + 1) md")
  have nofx: "Log (Info_report r) \<notin> set fx"
    using update_domains_availability_effects[of "Log (Info_report r)" "outcomes c"
      "domain_availability_averages st" "monitoring_cycle st + 1" md] u by auto
  show ?case
  proof (cases res)
    case (Inl e)
    with Cons.prems u nofx show ?thesis by simp
  next
    case (Inr avgs)
    with u have k: "map fst avgs = map fst (domain_availability_averages st)"
      using update_domains_availability_keys(1)[of "outcomes c"
        "domain_availability_averages st" "monitoring_cycle st + 1" md avgs] by simp
    let ?st1 = "\<lparr>domain_availability_averages = avgs,
                 monitoring_cycle = monitoring_cycle st + 1\<rparr>"
    from Cons.prems u Inr nofx
    have "r = map (\<lambda>(domain, availability). (domain, py_round (availability * 100))) avgs
          \<or> Log (Info_report r) \<in> set (snd (monitoring_loop md ?st1 cs))"
      by (auto simp: Let_def split: prod.splits)
    then show ?thesis
    proof
      assume "r = map (\<lambda>(domain, availability). (domain, py_round (availability * 100))) avgs"
      then have "map fst r = map fst avgs" by (simp add: case_prod_unfold comp_def)
      with k show ?thesis by simp
    next
      assume "Log (Info_report r) \<in> set (snd (monitoring_loop md ?st1 cs))"
      from Cons.IH[OF this] k show ?thesis by simp
    qed
  qed
qed

lemma monitoring_loop_keys:
  "fst (monitoring_loop md st cs) = Inr st'
   \<Longrightarrow> map fst (domain_availability_averages st') = map fst (domain_availability_averages st)"
proof (induction cs arbitrary: st)
  case Nil
  then show ?case by simp
next
  case (Cons c cs)
  from Cons.prems obtain avgs where
    upd: "fst (update_domains_availability (outcomes c) (domain_availability_averages st)
            (monitoring_cycle st + 1) md) = Inr avgs"
    and rest: "fst (monitoring_loop md
            \<lparr>domain_availability_averages = avgs,
             monitoring_cycle = monitoring_cycle st + 1\<rparr> cs) = Inr st'"
    by (rule monitoring_loop_step)
  from Cons.IH[OF rest] update_domains_availability_keys(1)[OF upd] show ?case by simp
qed

lemma monitoring_loop_sleeps:
  "fst (monitoring_loop md st cs) = Inr st'
   \<Longrightarrow> sleeps (snd (monitoring_loop md st cs))
       = map (\<lambda>c. max 0 (REFRESH_PERIOD - (monotonic_end c - monotonic_start c))) cs"
proof (induction cs arbitrary: st)
  case Nil
  then show ?case by simp
next
  case (Cons c cs)
  from Cons.prems obtain avgs where
    upd: "fst (update_domains_availability (outcomes c) (domain_availability_averages st)
            (monitoring_cycle st + 1) md) = Inr avgs"
    and rest: "fst (monitoring_loop md
            \<lparr>domain_availability_averages = avgs,
             monitoring_cycle = monitoring_cycle st + 1\<rparr> cs) = Inr st'"
    by (rule monitoring_loop_step)
  have "sleeps (snd (update_domains_availability (outcomes c) (domain_availability_averages st)
            (monitoring_cycle st + 1) md)) = []"
    by (rule update_domains_availability_no_sleep)
  with Cons.IH[OF rest] upd show ?case
    by (auto simp: Let_def sleeps_append split: prod.splits sum.splits)
qed

lemma monitoring_loop_clock_independent:
  "map outcomes cs' = map outcomes cs
   \<Longrightarrow> fst (monitoring_loop md st cs') = fst (monitoring_loop md st cs)"
proof (induction cs arbitrary: st cs')
  case Nil
  then show ?case by simp
next
  case (Cons c cs)
  from Cons.prems obtain c' cs'' where cs': "cs' = c' # cs''"
    and o: "outcomes c' = outcomes c" and r: "map outcomes cs'' = map outcomes cs"
    by (cases cs') auto
  show ?case
    unfolding cs' using Cons.IH[OF r] o
    by (auto simp: Let_def split: prod.splits sum.splits) (metis fst_conv)
qed

section \<open>Facts about the configuration\<close>







lemma py_getitem_Inl: "py_getitem v key = Inl e \<Longrightarrow> e = KeyError \<or> e = TypeError"
  by (cases v) (auto split: option.splits)

lemma domain_of_Inl:
  "\<forall>u e. netloc u = Inl e \<longrightarrow> is_Exception e \<Longrightarrow> domain_of netloc entry = Inl e
   \<Longrightarrow> is_Exception e"
  by (auto simp: domain_of_def split: sum.splits dest!: py_getitem_Inl)

lemma endpoint_of_Inl: "endpoint_of entry = Inl e \<Longrightarrow> is_Exception e"
  by (auto simp: endpoint_of_def split: sum.splits dest!: py_getitem_Inl)

lemma parse_entries_Inl:
  "\<forall>u e. netloc u = Inl e \<longrightarrow> is_Exception e \<Longrightarrow> parse_entries netloc md entries = Inl e
   \<Longrightarrow> is_Exception e"
  by (induction entries arbitrary: md)
     (auto split: sum.splits dest: domain_of_Inl endpoint_of_Inl)

lemma parse_entries_missing_field:
  assumes "entry \<in> set entries"
    and "py_getitem entry ''url'' = Inl KeyError \<or> py_getitem entry ''name'' = Inl KeyError"
  shows "\<exists>e. parse_entries netloc md entries = Inl e"
  using assms(1)
proof (induction entries arbitrary: md)
  case Nil
  then show ?case by simp
next
  case (Cons x entries)
  show ?case
  proof (cases "x = entry")
    case True
    with assms(2) show ?thesis
      by (auto simp: domain_of_def endpoint_of_def split: sum.splits)
  next
    case False
    with Cons.prems have "entry \<in> set entries" by simp
    from Cons.IH[OF this] show ?thesis
      by (auto split: sum.splits)
  qed
qed

text \<open>
  The loader never returns a domain without endpoints, so the loop of \<open>main\<close> does not
  stop by itself: it goes on as long as no probe is cancelled or interrupted.
\<close>

lemma update_mem:
  "(k', v') \<in> set (AList.update k v al) \<Longrightarrow> (k', v') = (k, v) \<or> (k', v') \<in> set al"
  by (induction al) (auto split: if_splits)

lemma append_endpoint_nonempty:
  "\<forall>(d, eps) \<in> set md. eps \<noteq> [] \<Longrightarrow> \<forall>(d, eps) \<in> set (append_endpoint domain ep md). eps \<noteq> []"
  by (auto simp: append_endpoint_def dest!: update_mem)

lemma parse_entries_nonempty:
  "parse_entries netloc md entries = Inr md' \<Longrightarrow> \<forall>(d, eps) \<in> set md. eps \<noteq> []
   \<Longrightarrow> \<forall>(d, eps) \<in> set md'. eps \<noteq> []"
proof (induction entries arbitrary: md)
  case Nil
  then show ?case by simp
next
  case (Cons entry entries)
  from Cons.prems(1) obtain domain ep where
    "parse_entries netloc (append_endpoint domain ep md) entries = Inr md'"
    by (auto split: sum.splits)
  from Cons.IH[OF this append_endpoint_nonempty[OF Cons.prems(2)]] show ?case .
qed

lemma load_config_nonempty:
  assumes "fst (load_config read_file safe_load netloc path) = Inr md"
  shows "\<forall>(d, eps) \<in> set md. eps \<noteq> []"
proof -
  from assms obtain entries where "parse_entries netloc [] entries = Inr md"
    by (auto simp: load_config_def parse_config_def split: sum.splits if_splits)
  from parse_entries_nonempty[OF this] show ?thesis by simp
qed

lemma main_keeps_running:
  assumes "length argv = 2"
    and "fst (load_config read_file safe_load netloc (argv ! 1)) = Inr md"
    and "\<forall>c \<in> set cycles. \<forall>i j e. outcomes c i j = Raised e \<longrightarrow> is_Exception e"
  shows "\<exists>st. fst (main argv read_file safe_load netloc cycles) = Inr st"
proof -
  let ?st0 = "\<lparr>domain_availability_averages = map (\<lambda>domain. (domain, 0)) (map fst md),
               monitoring_cycle = 0\<rparr>"
  have "fst ` set md \<subseteq> fst ` set (domain_availability_averages ?st0)"
    by force
  from monitoring_loop_succeeds[OF load_config_nonempty[OF assms(2)] assms(3) this]
  obtain st where "fst (monitoring_loop md ?st0 cycles) = Inr st" by auto
  with assms(1,2) show ?thesis
    by (cases "load_config read_file safe_load netloc (argv ! 1)")
       (auto simp: main_def Let_def split: prod.splits)
qed

section \<open>Facts about the worked example\<close>

lemma example_run:
  "monitoring_loop example_domains
     \<lparr>domain_availability_averages = [(''example.com'', 7)], monitoring_cycle = 0\<rparr>
     example_cycles
   = (Inr \<lparr>domain_availability_averages = [(''example.com'', 3 / 4)], monitoring_cycle = 2\<rparr>,
      [Log (Info_report [(''example.com'', 50)]), Sleep 14,
       Log (Info_report [(''example.com'', 75)]), Sleep 0])"
  by (simp add: example_domains_def example_cycles_def update_domains_availability_def
      get_domain_availability_def enumerate_eq_zip truediv_def sum_bools_def py_round_def
      REFRESH_PERIOD_def Let_def)





lemma example_netloc_Inl: "\<forall>u e. example_netloc u = Inl e \<longrightarrow> is_Exception e"
  by (auto simp: example_netloc_def split: yaml.splits)

lemma example_main:
  "main [''health_check.py'', ''config.yaml''] example_read_file
     (example_safe_load example_entries) example_netloc example_cycles
   = (Inr \<lparr>domain_availability_averages = [(''example.com'', 3 / 4), (''other.org'', 1)],
           monitoring_cycle = 2\<rparr>,
      [Log (Info_using_config ''config.yaml''),
       Log (Info_monitoring [''example.com'', ''other.org'']),
       Log (Info_report [(''example.com'', 50), (''other.org'', 100)]),
       Sleep 14,
       Log (Info_report [(''example.com'', 75), (''other.org'', 100)]),
       Sleep 0])"
  by (simp add: main_def load_config_def parse_config_def example_entries_def
      example_read_file_def example_safe_load_def
      domain_of_def endpoint_of_def example_netloc_def append_endpoint_def
      example_cycles_def update_domains_availability_def
      get_domain_availability_def enumerate_eq_zip truediv_def sum_bools_def py_round_def
      REFRESH_PERIOD_def Let_def)


lemma example_update:
  "fst (update_domains_availability (\<lambda>i j. Response 200) [(''example.com'', 7)] 1
          example_domains)
   = Inr [(''example.com'', 1)]"
  by (simp add: example_domains_def update_domains_availability_def
      get_domain_availability_def enumerate_eq_zip truediv_def sum_bools_def)

section \<open>Theorems\<close>

text \<open>
  C3. A response is classified Up exactly when its status code \<open>s\<close> satisfies
  \<open>200 \<le> s < 300\<close>, and nothing is logged; status 204 is Up, and 301, 404 and 500 are
  Down.
\<close>

theorem C3_status_code_classification:
  "check_endpoint_status (Response s) endpoint = (Inr (200 \<le> s \<and> s < 300), [])
   \<and> fst (check_endpoint_status (Response 204) endpoint) = Inr True
   \<and> fst (check_endpoint_status (Response 301) endpoint) = Inr False
   \<and> fst (check_endpoint_status (Response 404) endpoint) = Inr False
   \<and> fst (check_endpoint_status (Response 500) endpoint) = Inr False"
  by simp




text \<open>
  C2. For a domain with at least one endpoint whose probes all return a status, \<open>k\<close> of
  them Up, the availability returned is exactly \<open>k / n\<close>, where \<open>n\<close> is the number of
  endpoints. \<open>ups\<close> lists the statuses in endpoint order.
\<close>

theorem C2_availability_is_up_count_over_total:
  assumes "endpoints \<noteq> []"
    and "length ups = length endpoints"
    and "\<forall>j < length endpoints.
           fst (check_endpoint_status (session j) (request_parameters (endpoints ! j)))
           = Inr (ups ! j)"
  shows "fst (get_domain_availability session endpoints)
         = Inr (of_nat (length (filter id ups)) / of_nat (length endpoints))"
  using assms get_domain_availability_statuses[of ups endpoints session]
  by (simp add: truediv_def sum_bools_count)

theorem C2_availability_is_up_count_over_total_witness:
  "fst (get_domain_availability (\<lambda>j. if j = 0 then Response 200 else Raised TimeoutError)
          [\<lparr>name = YStr ''index'', request_parameters =
              \<lparr>url = YStr ''https://example.com/'', http_method = YStr ''GET'',
               headers = YNull, data = YNull\<rparr>\<rparr>,
           \<lparr>name = YStr ''careers'', request_parameters =
              \<lparr>url = YStr ''https://example.com/careers'', http_method = YStr ''GET'',
               headers = YNull, data = YNull\<rparr>\<rparr>])
   = Inr (1 / 2)"
  using C2_availability_is_up_count_over_total
    [of "[\<lparr>name = YStr ''index'', request_parameters =
              \<lparr>url = YStr ''https://example.com/'', http_method = YStr ''GET'',
               headers = YNull, data = YNull\<rparr>\<rparr>,
           \<lparr>name = YStr ''careers'', request_parameters =
              \<lparr>url = YStr ''https://example.com/careers'', http_method = YStr ''GET'',
               headers = YNull, data = YNull\<rparr>\<rparr>]"
        "[True, False]"
        "\<lambda>j. if j = 0 then Response 200 else Raised TimeoutError"]
  by (simp add: less_Suc_eq)

text \<open>
  C9. The division by the endpoint count raises \<open>ZeroDivisionError\<close> exactly when the
  endpoint list is empty: with a non-empty list it never divides by zero, and nothing
  guards the empty list.
\<close>

theorem C9_zero_division_iff_no_endpoints:
  "fst (get_domain_availability session endpoints) = Inl ZeroDivisionError
   \<longleftrightarrow> endpoints = []"
proof
  assume "fst (get_domain_availability session endpoints) = Inl ZeroDivisionError"
  from get_domain_availability_Inl[OF this] show "endpoints = []" by simp
next
  assume "endpoints = []"
  then show "fst (get_domain_availability session endpoints) = Inl ZeroDivisionError"
    by (simp add: get_domain_availability_def truediv_def)
qed





text \<open>
  C6. In a run of the loop, the duration passed to \<open>asyncio.sleep\<close> after each cycle
  is \<open>max 0 (P - t)\<close>, where \<open>P\<close> is \<open>REFRESH_PERIOD\<close> and \<open>t\<close> the difference of the two
  clock readings of the cycle; it is zero when \<open>t \<ge> P\<close>. The clock readings never make
  the loop fail: a run with the same probe outcomes and any other readings ends in the
  same state.
\<close>

theorem C6_sleep_is_rest_of_period:
  assumes "fst (monitoring_loop md st cs) = Inr st'"
  shows "sleeps (snd (monitoring_loop md st cs))
           = map (\<lambda>c. max 0 (REFRESH_PERIOD - (monotonic_end c - monotonic_start c))) cs
         \<and> (\<forall>c \<in> set cs. REFRESH_PERIOD \<le> monotonic_end c - monotonic_start c
               \<longrightarrow> max 0 (REFRESH_PERIOD - (monotonic_end c - monotonic_start c)) = 0)
         \<and> (\<forall>cs'. map outcomes cs' = map outcomes cs
               \<longrightarrow> fst (monitoring_loop md st cs') = Inr st')"
proof (intro conjI allI impI ballI)
  show "sleeps (snd (monitoring_loop md st cs))
          = map (\<lambda>c. max 0 (REFRESH_PERIOD - (monotonic_end c - monotonic_start c))) cs"
    using assms by (rule monitoring_loop_sleeps)
next
  fix c :: cycle_input
  assume "REFRESH_PERIOD \<le> monotonic_end c - monotonic_start c"
  then show "max 0 (REFRESH_PERIOD - (monotonic_end c - monotonic_start c)) = 0"
    by simp
next
  fix cs' :: "cycle_input list"
  assume "map outcomes cs' = map outcomes cs"
  then have "fst (monitoring_loop md st cs') = fst (monitoring_loop md st cs)"
    by (rule monitoring_loop_clock_independent)
  with assms show "fst (monitoring_loop md st cs') = Inr st'" by simp
qed

theorem C6_sleep_is_rest_of_period_witness:
  "sleeps (snd (monitoring_loop example_domains
          \<lparr>domain_availability_averages = [(''example.com'', 7)], monitoring_cycle = 0\<rparr>
          example_cycles)) = [14, 0]
   \<and> REFRESH_PERIOD \<le> monotonic_end (example_cycles ! 1) - monotonic_start (example_cycles ! 1)"
proof -
  have run: "fst (monitoring_loop example_domains
          \<lparr>domain_availability_averages = [(''example.com'', 7)], monitoring_cycle = 0\<rparr>
          example_cycles)
     = Inr \<lparr>domain_availability_averages = [(''example.com'', 3 / 4)], monitoring_cycle = 2\<rparr>"
    by (simp add: example_run)
  from C6_sleep_is_rest_of_period[OF run] show ?thesis
    by (simp add: example_cycles_def REFRESH_PERIOD_def)
qed




text \<open>
  C8. When the file is read and parsed as a list of entries and one entry has no
  \<open>url\<close> or no \<open>name\<close>, \<open>load_config\<close> logs one error and raises \<open>SystemExit(1)\<close>;
  the process exits with status 1 and its whole trace is the two log records, whatever
  the cycles would have been: the loop is never entered. \<open>urlparse\<close> is taken to raise
  nothing that \<open>except Exception\<close> lets through.
\<close>

theorem C8_missing_field_exits_with_1:
  assumes "read_file path = Inr content"
    and "safe_load content = Inr (YList entries)"
    and "\<exists>entry \<in> set entries.
           py_getitem entry ''url'' = Inl KeyError \<or> py_getitem entry ''name'' = Inl KeyError"
    and "\<forall>u e. netloc u = Inl e \<longrightarrow> is_Exception e"
  shows "\<exists>e. is_Exception e
           \<and> load_config read_file safe_load netloc path
               = (Inl (SystemExit 1), [Log (Error_load_config e)])
           \<and> script [prog, path] read_file safe_load netloc cycles
               = (Exited 1, [Log (Info_using_config path), Log (Error_load_config e)])"
proof -
  from assms(3) obtain e where e: "parse_entries netloc [] entries = Inl e"
    using parse_entries_missing_field by blast
  with assms(4) have ex: "is_Exception e" by (rule parse_entries_Inl)
  from e assms(1,2) ex have l: "load_config read_file safe_load netloc path
               = (Inl (SystemExit 1), [Log (Error_load_config e)])"
    by (simp add: load_config_def parse_config_def)
  then have "script [prog, path] read_file safe_load netloc cycles
               = (Exited 1, [Log (Info_using_config path), Log (Error_load_config e)])"
    by (simp add: script_def main_def)
  with ex l show ?thesis by blast
qed

theorem C8_missing_field_exits_with_1_witness:
  "\<exists>e. script [''health_check.py'', ''config.yaml''] example_read_file
          (example_safe_load example_bad_entries) example_netloc example_cycles
        = (Exited 1, [Log (Info_using_config ''config.yaml''), Log (Error_load_config e)])"
proof -
  have example_read: "example_read_file ''config.yaml'' = Inr ''text''"
    by (simp add: example_read_file_def)
  have example_loaded:
    "example_safe_load example_bad_entries ''text'' = Inr (YList example_bad_entries)"
    by (simp add: example_safe_load_def)
  have "\<exists>entry \<in> set example_bad_entries.
           py_getitem entry ''url'' = Inl KeyError \<or> py_getitem entry ''name'' = Inl KeyError"
    by (simp add: example_bad_entries_def example_entries_def)
  from C8_missing_field_exits_with_1[of example_read_file "''config.yaml''" "''text''"
        "example_safe_load example_bad_entries" example_bad_entries example_netloc
        "''health_check.py''" example_cycles,
      OF example_read example_loaded this example_netloc_Inl]
  show ?thesis by blast
qed

text \<open>
  C10. An update pass that returns leaves the keys of the averages as they were, in
  the same order; every monitored domain is among them, and the value of every key
  that is not a monitored domain is unchanged. In \<open>main\<close>, after any number of cycles, the keys of the averages and the
  domains of every report are the domains loaded at startup.
\<close>

theorem C10_domain_set_is_fixed:
  "(fst (update_domains_availability session avgs c md) = Inr avgs'
      \<longrightarrow> map fst avgs' = map fst avgs
          \<and> fst ` set md \<subseteq> fst ` set avgs'
          \<and> (\<forall>k. k \<notin> fst ` set md \<longrightarrow> map_of avgs' k = map_of avgs k))
   \<and> (main argv read_file safe_load netloc cycles = (Inr st, fx)
      \<longrightarrow> (\<exists>monitored_domains.
            load_config read_file safe_load netloc (argv ! 1) = (Inr monitored_domains, [])
          \<and> map fst (domain_availability_averages st) = map fst monitored_domains
          \<and> (\<forall>r. Log (Info_report r) \<in> set fx \<longrightarrow> map fst r = map fst monitored_domains)))"
proof (rule conjI; rule impI)
  assume u: "fst (update_domains_availability session avgs c md) = Inr avgs'"
  then have k: "map fst avgs' = map fst avgs"
    by (rule update_domains_availability_keys(1))
  have "fst ` set avgs' = fst ` set avgs"
    using arg_cong[OF k, of set] by simp
  with update_domains_availability_reads[OF u]
  have r: "fst ` set md \<subseteq> fst ` set avgs'"
    by simp
  have o: "\<forall>k. k \<notin> fst ` set md \<longrightarrow> map_of avgs' k = map_of avgs k"
    using update_domains_availability_keys(2)[OF u] by simp
  from k r o show "map fst avgs' = map fst avgs
      \<and> fst ` set md \<subseteq> fst ` set avgs'
      \<and> (\<forall>k. k \<notin> fst ` set md \<longrightarrow> map_of avgs' k = map_of avgs k)"
    by (intro conjI)
next
  assume m: "main argv read_file safe_load netloc cycles = (Inr st, fx)"
  obtain r lfx where l: "load_config read_file safe_load netloc (argv ! 1) = (r, lfx)"
    by (cases "load_config read_file safe_load netloc (argv ! 1)")
  from m have len: "length argv = 2"
    by (auto simp: main_def split: if_splits)
  from m l len obtain mds where r: "r = Inr mds"
    by (cases r) (auto simp: main_def Let_def split: prod.splits)
  from l r have lfx: "lfx = []"
    by (auto simp: load_config_def split: sum.splits if_splits)
  let ?st0 = "\<lparr>domain_availability_averages = map (\<lambda>domain. (domain, 0)) (map fst mds),
               monitoring_cycle = 0\<rparr>"
  obtain fx' where loop: "monitoring_loop mds ?st0 cycles = (Inr st, fx')"
    and fx: "fx = [Log (Info_using_config (argv ! 1)), Log (Info_monitoring (map fst mds))] @ fx'"
    using m l r lfx len by (auto simp: main_def Let_def split: prod.splits)
  have keys0: "map fst (domain_availability_averages ?st0) = map fst mds"
    by (simp add: comp_def)
  from loop have "map fst (domain_availability_averages st) = map fst mds"
    using monitoring_loop_keys[of mds ?st0 cycles st] keys0 by simp
  moreover have "map fst rep = map fst mds" if "Log (Info_report rep) \<in> set fx" for rep
  proof -
    from that fx have "Log (Info_report rep) \<in> set (snd (monitoring_loop mds ?st0 cycles))"
      using loop by simp
    from monitoring_loop_reports[OF this] keys0 show ?thesis by simp
  qed
  ultimately show "\<exists>monitored_domains.
            load_config read_file safe_load netloc (argv ! 1) = (Inr monitored_domains, [])
          \<and> map fst (domain_availability_averages st) = map fst monitored_domains
          \<and> (\<forall>r. Log (Info_report r) \<in> set fx \<longrightarrow> map fst r = map fst monitored_domains)"
    using l r lfx by blast
qed

theorem C10_domain_set_is_fixed_witness:
  "fst (update_domains_availability (\<lambda>i j. Response 200) [(''example.com'', 7)] 1
          example_domains)
     = Inr [(''example.com'', 1)]
   \<and> (\<exists>monitored_domains.
         load_config example_read_file (example_safe_load example_entries)
           example_netloc ''config.yaml'' = (Inr monitored_domains, [])
       \<and> map fst monitored_domains = [''example.com'', ''other.org''])"
proof -
  note c10 = C10_domain_set_is_fixed[of "\<lambda>i j. Response 200" "[(''example.com'', 7)]" 1 example_domains
      "[(''example.com'', 1)]" "[''health_check.py'', ''config.yaml'']"
      example_read_file "example_safe_load example_entries" example_netloc
      example_cycles
      "\<lparr>domain_availability_averages = [(''example.com'', 3 / 4), (''other.org'', 1)],
        monitoring_cycle = 2\<rparr>"
      "[Log (Info_using_config ''config.yaml''),
        Log (Info_monitoring [''example.com'', ''other.org'']),
        Log (Info_report [(''example.com'', 50), (''other.org'', 100)]),
        Sleep 14,
        Log (Info_report [(''example.com'', 75), (''other.org'', 100)]),
        Sleep 0]"]
  from c10 have upd: "fst (update_domains_availability (\<lambda>i j. Response 200)
        [(''example.com'', 7)] 1 example_domains) = Inr [(''example.com'', 1)]
      \<longrightarrow> map fst [(''example.com'', 1 :: rat)] = map fst [(''example.com'', 7 :: rat)]
          \<and> fst ` set example_domains \<subseteq> fst ` set [(''example.com'', 1 :: rat)]
          \<and> (\<forall>k. k \<notin> fst ` set example_domains
                \<longrightarrow> map_of [(''example.com'', 1 :: rat)] k = map_of [(''example.com'', 7)] k)"
    by (rule conjunct1)
  from upd example_update
  have keys: "map fst [(''example.com'', 1 :: rat)] = map fst [(''example.com'', 7 :: rat)]
          \<and> fst ` set example_domains \<subseteq> fst ` set [(''example.com'', 1 :: rat)]
          \<and> (\<forall>k. k \<notin> fst ` set example_domains
                \<longrightarrow> map_of [(''example.com'', 1 :: rat)] k = map_of [(''example.com'', 7)] k)"
    by (rule mp)
  from c10 [THEN conjunct2, THEN mp, OF example_main] obtain md where
    "load_config example_read_file (example_safe_load example_entries)
       example_netloc ([''health_check.py'', ''config.yaml''] ! 1) = (Inr md, [])"
    and "map fst (domain_availability_averages
           \<lparr>domain_availability_averages = [(''example.com'', 3 / 4), (''other.org'', 1)],
            monitoring_cycle = 2\<rparr>) = map fst md"
    by (elim exE conjE) (rule that)
  then show ?thesis
    using example_update keys by (intro conjI exI[of _ md]) simp_all
qed

end
